theory Spec2Isabelle
  imports Main
begin

section \<open>Named mutex (class Mutex, src/lib/src/Mutex.ts)\<close>

text \<open>
  The class keeps two private fields: \<^verbatim>\<open>#queue: Record<string, QueueItem[]> = {}\<close>, a plain
  object, and \<^verbatim>\<open>#locks = new Set<string>()\<close>. A queue item is the closure that resolves one
  pending promise; here it is named by the ticket (a number) of the acquisition it
  belongs to. \<open>queue\<close> holds the own properties of the object: a key that was never queued
  on has none (\<open>None\<close>).
\<close>

type_synonym ticket = nat

record Mutex =
  queue :: "string \<Rightarrow> ticket list option"
  locks :: "string set"

definition new_Mutex :: Mutex where
  "new_Mutex = \<lparr>queue = (\<lambda>_. None), locks = {}\<rparr>"

text \<open>
  Reading \<^verbatim>\<open>this.#queue[name]\<close> follows the prototype chain of the plain object. For a key
  without own property the result is \<^verbatim>\<open>undefined\<close>, unless the key names a property of
  \<^verbatim>\<open>Object.prototype\<close>: then it is the inherited value (a function, or for \<^verbatim>\<open>__proto__\<close> the
  prototype object), which is truthy and has neither \<^verbatim>\<open>push\<close> nor \<^verbatim>\<open>shift\<close>.
\<close>

definition Object_prototype_keys :: "string set" where
  "Object_prototype_keys =
     {''constructor'', ''__defineGetter__'', ''__defineSetter__'', ''hasOwnProperty'',
      ''__lookupGetter__'', ''__lookupSetter__'', ''isPrototypeOf'', ''propertyIsEnumerable'',
      ''toString'', ''valueOf'', ''__proto__'', ''toLocaleString''}"

datatype queue_value = Undefined | Array "ticket list" | Inherited

definition queue_get :: "Mutex \<Rightarrow> string \<Rightarrow> queue_value" where
  "queue_get m name =
     (case queue m name of
        Some q \<Rightarrow> Array q
      | None \<Rightarrow> if name \<in> Object_prototype_keys then Inherited else Undefined)"

datatype js_error = TypeError

datatype promise_state = Resolved | Pending | Rejected js_error

text \<open>
  \<^verbatim>\<open>aqquire(name)\<close>: the promise executor runs synchronously. When the key is not locked it
  is locked and the promise is resolved at once. When it is locked, the queue of the key
  is created if \<^verbatim>\<open>!this.#queue[name]\<close> and the resolver is pushed at its end, the promise
  staying pending; on an inherited value the creation is skipped and the call of \<^verbatim>\<open>push\<close>
  throws a \<^verbatim>\<open>TypeError\<close> inside the executor, which rejects the promise. The result is the
  state of the promise after the call.
\<close>

definition aqquire :: "string \<Rightarrow> ticket \<Rightarrow> Mutex \<Rightarrow> promise_state \<times> Mutex" where
  "aqquire name t m =
     (if name \<in> locks m
      then (case queue_get m name of
              Undefined \<Rightarrow> (Pending, m\<lparr>queue := (queue m)(name \<mapsto> [] @ [t])\<rparr>)
            | Array q \<Rightarrow> (Pending, m\<lparr>queue := (queue m)(name \<mapsto> q @ [t])\<rparr>)
            | Inherited \<Rightarrow> (Rejected TypeError, m))
      else (Resolved, m\<lparr>locks := insert name (locks m)\<rparr>))"

text \<open>
  \<^verbatim>\<open>release\<close>, run by \<^verbatim>\<open>[Symbol.dispose]\<close> of the object \<^verbatim>\<open>aqquire\<close> returned: the key is
  unlocked first; then \<^verbatim>\<open>this.#queue[name]?.shift()\<close> takes the first item off the key's
  queue, and when there is one its \<^verbatim>\<open>resolve\<close> locks the key again and resolves that
  waiter's promise. On an inherited value the call of \<^verbatim>\<open>shift\<close> throws a \<^verbatim>\<open>TypeError\<close>, after
  the unlocking. The result is the ticket whose promise was resolved, if any, or the error.
\<close>

definition release :: "string \<Rightarrow> Mutex \<Rightarrow> (js_error + ticket option) \<times> Mutex" where
  "release name m =
     (let m1 = m\<lparr>locks := locks m - {name}\<rparr>
      in case queue_get m1 name of
           Undefined \<Rightarrow> (Inr None, m1)
         | Inherited \<Rightarrow> (Inl TypeError, m1)
         | Array [] \<Rightarrow> (Inr None, m1)
         | Array (next # rest) \<Rightarrow>
             (Inr (Some next),
              m1\<lparr>queue := (queue m1)(name \<mapsto> rest), locks := insert name (locks m1)\<rparr>))"

text \<open>
  A history of calls on one mutex, and the log of promise resolutions (key and ticket)
  in the order in which \<^verbatim>\<open>resolve()\<close> is called.
\<close>

datatype mutex_op = OpAqquire string ticket | OpDispose string

fun op_name :: "mutex_op \<Rightarrow> string" where
  "op_name (OpAqquire name t) = name"
| "op_name (OpDispose name) = name"

fun mutex_step :: "Mutex \<times> (string \<times> ticket) list \<Rightarrow> mutex_op \<Rightarrow> Mutex \<times> (string \<times> ticket) list" where
  "mutex_step (m, log) (OpAqquire name t) =
     (case aqquire name t m of
        (Resolved, m') \<Rightarrow> (m', log @ [(name, t)])
      | (Pending, m') \<Rightarrow> (m', log)
      | (Rejected e, m') \<Rightarrow> (m', log))"
| "mutex_step (m, log) (OpDispose name) =
     (case release name m of
        (Inr (Some t), m') \<Rightarrow> (m', log @ [(name, t)])
      | (Inr None, m') \<Rightarrow> (m', log)
      | (Inl e, m') \<Rightarrow> (m', log))"

definition run_mutex :: "mutex_op list \<Rightarrow> Mutex \<times> (string \<times> ticket) list" where
  "run_mutex ops = foldl mutex_step (new_Mutex, []) ops"

fun arrivals :: "string \<Rightarrow> mutex_op list \<Rightarrow> ticket list" where
  "arrivals k [] = []"
| "arrivals k (OpAqquire name t # ops) = (if name = k then t # arrivals k ops else arrivals k ops)"
| "arrivals k (OpDispose name # ops) = arrivals k ops"

definition waiting :: "string \<Rightarrow> Mutex \<Rightarrow> ticket list" where
  "waiting k m = (case queue m k of None \<Rightarrow> [] | Some q \<Rightarrow> q)"

definition granted :: "string \<Rightarrow> (string \<times> ticket) list \<Rightarrow> ticket list" where
  "granted k log = map snd (filter (\<lambda>e. fst e = k) log)"

definition key_view :: "string \<Rightarrow> Mutex \<times> (string \<times> ticket) list \<Rightarrow> bool \<times> ticket list \<times> ticket list" where
  "key_view k s = (k \<in> locks (fst s), waiting k (fst s), granted k (snd s))"

section \<open>Errors (errors.ts) and event types (types.ts)\<close>

text \<open>
  Every \<^verbatim>\<open>throw\<close> of the library is one constructor: the two \<^verbatim>\<open>ModddelError\<close> subclasses,
  and one constructor for each \<^verbatim>\<open>new Error(...)\<close> of aggregateData.ts, in the order
  \<^verbatim>\<open>Aggregate "<name>" not defined\<close>,
  \<^verbatim>\<open>Cannot load aggregate by events when none are defined ...\<close>,
  \<^verbatim>\<open>Loaded events doesn't start right after snapshot.\<close>,
  \<^verbatim>\<open>Loaded events are not continous.\<close> and
  \<^verbatim>\<open>Handler for event "<event>" not defined for aggregate "<name>".\<close>
  A value thrown by code the caller supplies (an event handler, a store method, a
  subscriber) is \<open>Thrown\<close>, kept apart from what the library itself raises.
\<close>

datatype error =
    InstanceDoesNotExistError
  | ConcurrencyError
  | AggregateNotDefined string
  | NoEventsDefined
  | EventsDontStartAfterSnapshot
  | EventsNotContinous
  | HandlerNotDefined string string
  | Thrown string

text \<open>
  \<^verbatim>\<open>IEvent\<close>, \<^verbatim>\<open>IAggregateEvent\<close> and \<^verbatim>\<open>IStreamEvent\<close>; a JavaScript number that holds a
  version or a timestamp is an \<open>int\<close>, the payload is opaque.
\<close>

record 'p IEvent =
  ev_name :: string
  ev_payload :: 'p

record 'p AggregateEvent = "'p IEvent" +
  ev_occuredAt :: int
  ev_version :: int

record 'p IStreamEvent = "'p AggregateEvent" +
  aggregateId :: string
  aggregateType :: string

text \<open>
  Objects have identity. An aggregate instance (the handle) and a state object are
  named by a reference; the contents of state objects are in the heap of the world, so
  that two holders of one reference see each other's writes.
\<close>

type_synonym handle = nat
type_synonym addr = nat

record ISnapshot =
  snap_version :: int
  snap_state :: addr

text \<open>
  \<^verbatim>\<open>AggregateOptions\<close>: an event handler is called with \<^verbatim>\<open>this.state\<close> bound to the live
  state object and mutates it in place; it yields the new contents of that object and
  the value it threw, if it threw. \<^verbatim>\<open>events\<close> is optional. The \<^verbatim>\<open>actions\<close> are caller code
  that runs against the two operations of the action context, which are modelled below.
\<close>

type_synonym ('s, 'p) handler = "'p IEvent \<Rightarrow> 's \<Rightarrow> 's \<times> string option"

record ('s, 'p) AggregateOptions =
  opt_name :: string
  opt_initialState :: 's
  opt_events :: "(string \<Rightarrow> ('s, 'p) handler option) option"

section \<open>Instance registry (src/lib/src/aggregateData.ts)\<close>

text \<open>\<^verbatim>\<open>interface AggregateData\<close>: \<^verbatim>\<open>state\<close> is a reference to the state object.\<close>

record 'p AggregateData =
  data_state :: addr
  data_version :: int
  recordedEvents :: "'p AggregateEvent list"

text \<open>
  What one call of \<^verbatim>\<open>create(id)\<close> closes over: the id, the options of the definition and
  the variable \<^verbatim>\<open>instance\<close>, which holds the handle or \<^verbatim>\<open>null\<close>.
\<close>

record ('s, 'p) instance_closure =
  inst_id :: string
  inst_options :: "('s, 'p) AggregateOptions"
  inst_var :: "handle option"

text \<open>
  The world: the module-level map \<^verbatim>\<open>aggregateDefinitions\<close> (an entry is represented by
  its options; the definition is the closure over them), the module-level WeakMap
  \<^verbatim>\<open>aggregatesData\<close> keyed by handle identity, the closures of the handles, the heap of
  state objects, the next unused reference, the reading of \<^verbatim>\<open>Date.now()\<close>, and the state
  of the external collaborators (store and subscribers). The closures and the heap are
  total: what they hold at a reference that was never handed out is never read.
\<close>

record ('s, 'p, 'env) world =
  aggregateDefinitions :: "string \<Rightarrow> ('s, 'p) AggregateOptions option"
  aggregatesData :: "handle \<Rightarrow> 'p AggregateData option"
  closures :: "handle \<Rightarrow> ('s, 'p) instance_closure"
  heap :: "addr \<Rightarrow> 's"
  next_ref :: nat
  clock :: int
  ext :: 'env

definition getAggregateDefinition ::
  "string \<Rightarrow> ('s, 'p, 'env) world \<Rightarrow> error + ('s, 'p) AggregateOptions" where
  "getAggregateDefinition name w =
     (case aggregateDefinitions w name of
        None \<Rightarrow> Inl (AggregateNotDefined name)
      | Some config \<Rightarrow> Inr config)"

definition registerAggregate ::
  "('s, 'p) AggregateOptions \<Rightarrow> ('s, 'p, 'env) world \<Rightarrow> ('s, 'p, 'env) world" where
  "registerAggregate options w =
     w\<lparr>aggregateDefinitions := (aggregateDefinitions w)(opt_name options \<mapsto> options)\<rparr>"

definition createInstanceData ::
  "handle \<Rightarrow> addr \<Rightarrow> ('s, 'p, 'env) world \<Rightarrow> ('s, 'p, 'env) world" where
  "createInstanceData instance st w =
     w\<lparr>aggregatesData := (aggregatesData w)(instance \<mapsto>
          \<lparr>data_state = st, data_version = 0, recordedEvents = []\<rparr>)\<rparr>"

text \<open>\<^verbatim>\<open>aggregateData(instance | null)\<close>\<close>

definition aggregateData ::
  "handle option \<Rightarrow> ('s, 'p, 'env) world \<Rightarrow> error + 'p AggregateData" where
  "aggregateData instance w =
     (case instance of
        None \<Rightarrow> Inl InstanceDoesNotExistError
      | Some h \<Rightarrow>
          (case aggregatesData w h of
             None \<Rightarrow> Inl InstanceDoesNotExistError
           | Some d \<Rightarrow> Inr d))"

text \<open>
  \<^verbatim>\<open>recordEvent(instance | null, event)\<close>: the version is incremented first, then the event
  is pushed with the incremented version and the current time.
\<close>

definition recordEvent ::
  "handle option \<Rightarrow> 'p IEvent \<Rightarrow> ('s, 'p, 'env) world \<Rightarrow> (error + unit) \<times> ('s, 'p, 'env) world" where
  "recordEvent instance event w =
     (case instance of
        None \<Rightarrow> (Inl InstanceDoesNotExistError, w)
      | Some h \<Rightarrow>
          (case aggregatesData w h of
             None \<Rightarrow> (Inl InstanceDoesNotExistError, w)
           | Some d \<Rightarrow>
               (let v = data_version d + 1;
                    d' = d\<lparr>data_version := v,
                           recordedEvents := recordedEvents d @
                             [\<lparr>ev_name = ev_name event, ev_payload = ev_payload event,
                               ev_occuredAt = clock w, ev_version = v\<rparr>]\<rparr>
                in (Inr (), w\<lparr>aggregatesData := (aggregatesData w)(h \<mapsto> d')\<rparr>))))"

text \<open>\<^verbatim>\<open>popRecordedEvents(instance)\<close>: the handle is not nullable here.\<close>

definition popRecordedEvents ::
  "handle \<Rightarrow> ('s, 'p, 'env) world \<Rightarrow> (error + 'p AggregateEvent list) \<times> ('s, 'p, 'env) world" where
  "popRecordedEvents instance w =
     (case aggregatesData w instance of
        None \<Rightarrow> (Inl InstanceDoesNotExistError, w)
      | Some d \<Rightarrow>
          (Inr (recordedEvents d),
           w\<lparr>aggregatesData := (aggregatesData w)(instance \<mapsto> d\<lparr>recordedEvents := []\<rparr>)\<rparr>))"

section \<open>Aggregate definition runtime (src/lib/src/aggregate.ts)\<close>

text \<open>
  \<^verbatim>\<open>definition.create(id)\<close> (the id is called \<open>ident\<close> here): a new handle object
  whose closure variable \<^verbatim>\<open>instance\<close> holds the handle itself, a new state object from
  \<^verbatim>\<open>options.initialState()\<close>, and the data record registered under the handle.
\<close>

definition create ::
  "('s, 'p) AggregateOptions \<Rightarrow> string \<Rightarrow> ('s, 'p, 'env) world \<Rightarrow> handle \<times> ('s, 'p, 'env) world" where
  "create options ident w =
     (let instance = next_ref w;
          st = next_ref w + 1;
          w1 = w\<lparr>closures := (closures w)(instance :=
                    \<lparr>inst_id = ident, inst_options = options, inst_var = Some instance\<rparr>),
                 heap := (heap w)(st := opt_initialState options),
                 next_ref := next_ref w + 2\<rparr>
      in (instance, createInstanceData instance st w1))"

definition defineAggregateRoot ::
  "('s, 'p) AggregateOptions \<Rightarrow> ('s, 'p, 'env) world \<Rightarrow> ('s, 'p, 'env) world" where
  "defineAggregateRoot options w = registerAggregate options w"

text \<open>The methods of a handle: \<^verbatim>\<open>id()\<close>, \<^verbatim>\<open>aggregateName()\<close> and \<^verbatim>\<open>[Symbol.dispose]()\<close>.\<close>

definition id_of :: "handle \<Rightarrow> ('s, 'p, 'env) world \<Rightarrow> string" where
  "id_of instance w = inst_id (closures w instance)"

definition aggregateName_of :: "handle \<Rightarrow> ('s, 'p, 'env) world \<Rightarrow> string" where
  "aggregateName_of instance w = opt_name (inst_options (closures w instance))"

definition dispose :: "handle \<Rightarrow> ('s, 'p, 'env) world \<Rightarrow> ('s, 'p, 'env) world" where
  "dispose instance w =
     w\<lparr>closures := (closures w)(instance := (closures w instance)\<lparr>inst_var := None\<rparr>)\<rparr>"

text \<open>
  The action context of a handle. \<^verbatim>\<open>state\<close> is
  \<^verbatim>\<open>() => aggregateData(instance).state\<close> with \<^verbatim>\<open>instance\<close> the closure variable, and
  \<^verbatim>\<open>stateCopy\<close> is \<^verbatim>\<open>(): StateT => state()\<close>: both return the reference held by the record.
\<close>

definition state_fn :: "handle \<Rightarrow> ('s, 'p, 'env) world \<Rightarrow> error + addr" where
  "state_fn instance w =
     (case aggregateData (inst_var (closures w instance)) w of
        Inl e \<Rightarrow> Inl e
      | Inr d \<Rightarrow> Inr (data_state d))"

definition stateCopy :: "handle \<Rightarrow> ('s, 'p, 'env) world \<Rightarrow> error + addr" where
  "stateCopy instance w = state_fn instance w"

text \<open>
  A handler call \<^verbatim>\<open>handler.call({ state }, event)\<close> on the state object at a reference.
\<close>

definition call_handler ::
  "('s, 'p) handler \<Rightarrow> 'p IEvent \<Rightarrow> addr \<Rightarrow> ('s, 'p, 'env) world \<Rightarrow> (error + unit) \<times> ('s, 'p, 'env) world" where
  "call_handler handler event st w =
     (case handler event (heap w st) of
        (s', None) \<Rightarrow> (Inr (), w\<lparr>heap := (heap w)(st := s')\<rparr>)
      | (s', Some t) \<Rightarrow> (Inl (Thrown t), w\<lparr>heap := (heap w)(st := s')\<rparr>))"

text \<open>
  \<^verbatim>\<open>recordThat(name, payload)\<close>: without a handler registered under the name it returns
  at once; otherwise the event is recorded through the closure variable and the handler
  is run on the live state.
\<close>

definition recordThat ::
  "handle \<Rightarrow> string \<Rightarrow> 'p \<Rightarrow> ('s, 'p, 'env) world \<Rightarrow> (error + unit) \<times> ('s, 'p, 'env) world" where
  "recordThat instance name payload w =
     (let options = inst_options (closures w instance);
          event = \<lparr>ev_name = name, ev_payload = payload\<rparr>
      in case (case opt_events options of None \<Rightarrow> None | Some hs \<Rightarrow> hs name) of
           None \<Rightarrow> (Inr (), w)
         | Some handler \<Rightarrow>
             (case recordEvent (inst_var (closures w instance)) event w of
                (Inl e, w1) \<Rightarrow> (Inl e, w1)
              | (Inr u, w1) \<Rightarrow>
                  (case state_fn instance w1 of
                     Inl e \<Rightarrow> (Inl e, w1)
                   | Inr st \<Rightarrow> call_handler handler event st w1)))"

text \<open>
  What caller code can do with a reference to a state object it was handed: assign to
  the object's properties.
\<close>

definition mutate :: "addr \<Rightarrow> ('s \<Rightarrow> 's) \<Rightarrow> ('s, 'p, 'env) world \<Rightarrow> ('s, 'p, 'env) world" where
  "mutate st f w = w\<lparr>heap := (heap w)(st := f (heap w st))\<rparr>"

section \<open>Event replay (utils.ts, src/lib/src/aggregateData.ts)\<close>

text \<open>
  \<^verbatim>\<open>events.toSorted(EventSorter.byVersion)\<close> with \<^verbatim>\<open>byVersion = (a, b) => a.version - b.version\<close>:
  a stable sort, ascending by version.
\<close>

definition toSorted_byVersion :: "'p AggregateEvent list \<Rightarrow> 'p AggregateEvent list" where
  "toSorted_byVersion events = sort_key ev_version events"

text \<open>
  \<^verbatim>\<open>areEventsContinous\<close>: the loop \<^verbatim>\<open>for (let i = 1; i < versions.length; i += 1)\<close> returns
  false at the first index with \<^verbatim>\<open>versions[i - 1] != versions[i] - 1\<close>.
\<close>

function continous_loop :: "nat \<Rightarrow> int list \<Rightarrow> bool" where
  "continous_loop i versions =
     (if i < length versions
      then (if versions ! (i - 1) \<noteq> versions ! i - 1 then False
            else continous_loop (i + 1) versions)
      else True)"
  by pat_completeness auto
termination
  by (relation "measure (\<lambda>(i, versions). length versions - i)") auto

declare continous_loop.simps [simp del]

definition areEventsContinous :: "'p AggregateEvent list \<Rightarrow> bool" where
  "areEventsContinous sortedEvents =
     (if length sortedEvents < 2 then True
      else continous_loop 1 (map ev_version sortedEvents))"

text \<open>
  The loop \<^verbatim>\<open>for (const event of newEvents)\<close> of \<^verbatim>\<open>loadAggregate\<close>. \<^verbatim>\<open>data\<close> is the record
  object of the instance: the loop carries its fields and every assignment to it is
  written to the registry entry it is.
\<close>

fun apply_events ::
  "(string \<Rightarrow> ('s, 'p) handler option) \<Rightarrow> string \<Rightarrow> handle \<Rightarrow> 'p AggregateData \<Rightarrow>
   'p AggregateEvent list \<Rightarrow> ('s, 'p, 'env) world \<Rightarrow> (error + unit) \<times> ('s, 'p, 'env) world" where
  "apply_events hs oname instance data [] w = (Inr (), w)"
| "apply_events hs oname instance data (event # rest) w =
     (case hs (ev_name event) of
        None \<Rightarrow> (Inl (HandlerNotDefined (ev_name event) oname), w)
      | Some handler \<Rightarrow>
          (case call_handler handler \<lparr>ev_name = ev_name event, ev_payload = ev_payload event\<rparr>
                  (data_state data) w of
             (Inl e, w1) \<Rightarrow> (Inl e, w1)
           | (Inr u, w1) \<Rightarrow>
               (let data' = data\<lparr>data_version := ev_version event\<rparr>
                in apply_events hs oname instance data' rest
                     (w1\<lparr>aggregatesData := (aggregatesData w1)(instance \<mapsto> data')\<rparr>))))"

text \<open>
  \<^verbatim>\<open>loadAggregate(aggregateName, id, events = [], snapshot = null)\<close>. The instance is
  created before any check, so a failing replay leaves the new record in the registry.
\<close>

definition loadAggregate ::
  "string \<Rightarrow> string \<Rightarrow> 'p AggregateEvent list \<Rightarrow> ISnapshot option \<Rightarrow>
   ('s, 'p, 'env) world \<Rightarrow> (error + handle) \<times> ('s, 'p, 'env) world" where
  "loadAggregate aggregateName ident events snapshot w =
     (case getAggregateDefinition aggregateName w of
        Inl e \<Rightarrow> (Inl e, w)
      | Inr options \<Rightarrow>
          (case create options ident w of
             (instance, w1) \<Rightarrow>
               (case aggregateData (Some instance) w1 of
                  Inl e \<Rightarrow> (Inl e, w1)
                | Inr data0 \<Rightarrow>
                    (let data = (case snapshot of
                                   None \<Rightarrow> data0
                                 | Some s \<Rightarrow> data0\<lparr>data_state := snap_state s,
                                                  data_version := snap_version s\<rparr>);
                         w2 = w1\<lparr>aggregatesData := (aggregatesData w1)(instance \<mapsto> data)\<rparr>
                     in if events = [] then (Inr instance, w2)
                        else
                          (case opt_events options of
                             None \<Rightarrow> (Inl NoEventsDefined, w2)
                           | Some hs \<Rightarrow>
                               (let newEvents = toSorted_byVersion
                                      (case snapshot of
                                         None \<Rightarrow> events
                                       | Some s \<Rightarrow>
                                           filter (\<lambda>event. ev_version event > snap_version s) events)
                                in case newEvents of
                                     [] \<Rightarrow> (Inr instance, w2)
                                   | first # others \<Rightarrow>
                                       if ev_version first \<noteq>
                                            (case snapshot of None \<Rightarrow> 0 | Some s \<Rightarrow> snap_version s) + 1
                                       then (Inl EventsDontStartAfterSnapshot, w2)
                                       else if \<not> areEventsContinous newEvents
                                       then (Inl EventsNotContinous, w2)
                                       else
                                         (case apply_events hs (opt_name options) instance data
                                                 newEvents w2 of
                                            (Inl e, w3) \<Rightarrow> (Inl e, w3)
                                          | (Inr u, w3) \<Rightarrow> (Inr instance, w3))))))))"

section \<open>Repository (class Repository, after class Mutex in src/lib/src/Mutex.ts)\<close>

text \<open>
  The store and the subscribers are external collaborators: each is a function on the
  collaborators' own state \<open>'env\<close> that returns a value or the value it threw. A
  definition is handed to the store by its name. \<^verbatim>\<open>isSnapshotStore(store)\<close> holds when the
  store has both snapshot methods (\<open>snapshotStore\<close> is \<open>Some\<close>).
\<close>

record 'env ISnapshotStore =
  loadSnapshot :: "string \<Rightarrow> string \<Rightarrow> 'env \<Rightarrow> (string + ISnapshot option) \<times> 'env"
  saveSnapshot :: "string \<Rightarrow> string \<Rightarrow> ISnapshot \<Rightarrow> 'env \<Rightarrow> (string + unit) \<times> 'env"

record ('p, 'env) IEventStore =
  getAggregateVersion :: "string \<Rightarrow> string \<Rightarrow> 'env \<Rightarrow> (string + int) \<times> 'env"
  loadHistory :: "string \<Rightarrow> string \<Rightarrow> int \<Rightarrow> 'env \<Rightarrow> (string + 'p IStreamEvent list) \<times> 'env"
  saveEvents :: "'p IStreamEvent list \<Rightarrow> 'env \<Rightarrow> (string + unit) \<times> 'env"
  snapshotStore :: "'env ISnapshotStore option"

type_synonym ('p, 'env) listener = "'p IStreamEvent list \<Rightarrow> 'env \<Rightarrow> string option \<times> 'env"

record ('p, 'env) Repository =
  store :: "('p, 'env) IEventStore"
  eventsRecorded :: "('p, 'env) listener list"
  eventsPublished :: "('p, 'env) listener list"

text \<open>
  The calls a repository operation makes on its mutex, its emitter and its store, in
  order, with what the store reported for the version and what an emit came to.
\<close>

datatype 'p call =
    MutexAqquire string
  | MutexDispose string
  | Emit string "'p IStreamEvent list" "error + unit"
  | GetAggregateVersion string string "string + int"
  | SaveEvents "'p IStreamEvent list"
  | SaveSnapshot string string ISnapshot
  | LoadSnapshot string string
  | LoadHistory string string int

definition call_ext :: "('env \<Rightarrow> 'r \<times> 'env) \<Rightarrow> ('s, 'p, 'env) world \<Rightarrow> 'r \<times> ('s, 'p, 'env) world" where
  "call_ext f w = (case f (ext w) of (r, env') \<Rightarrow> (r, w\<lparr>ext := env'\<rparr>))"

text \<open>
  \<^verbatim>\<open>emitter.emit(name, streamEvents)\<close> of the package \<^verbatim>\<open>@nulltype/event-emitter\<close>, which is
  not part of the repository: an asynchronous function that calls the subscribers of the
  channel one after the other, awaiting each, and whose promise is rejected by the first
  subscriber that fails.
\<close>

fun emit ::
  "('p, 'env) listener list \<Rightarrow> 'p IStreamEvent list \<Rightarrow> ('s, 'p, 'env) world \<Rightarrow>
   (error + unit) \<times> ('s, 'p, 'env) world" where
  "emit [] args w = (Inr (), w)"
| "emit (l # ls) args w =
     (case call_ext (l args) w of
        (Some t, w1) \<Rightarrow> (Inl (Thrown t), w1)
      | (None, w1) \<Rightarrow> emit ls args w1)"

definition aggregateEventToStreamEvent ::
  "string \<Rightarrow> string \<Rightarrow> 'p AggregateEvent \<Rightarrow> 'p IStreamEvent" where
  "aggregateEventToStreamEvent ident aggregateName event =
     \<lparr>ev_name = ev_name event, ev_payload = ev_payload event,
      ev_occuredAt = ev_occuredAt event, ev_version = ev_version event,
      aggregateId = ident, aggregateType = aggregateName\<rparr>"

text \<open>
  The text JavaScript gives for the method \<^verbatim>\<open>id\<close> of a handle when it is turned into a
  string (\<^verbatim>\<open>Function.prototype.toString\<close>: the source text of the method in aggregate.ts).
  Every handle has the same text, whatever id its closure holds.
\<close>

definition id_method_toString :: string where
  "id_method_toString = ''id() {\<newline>          return id\<newline>        }''"

text \<open>
  The mutex keys. \<^verbatim>\<open>save\<close> builds \<^verbatim>\<open>`${aggregate.aggregateName()}:${aggregate.id}`\<close>, where
  \<^verbatim>\<open>aggregate.id\<close> is the method, not a call of it; \<^verbatim>\<open>load\<close> builds
  \<^verbatim>\<open>`${aggregateDefinition.name()}:${id}`\<close>.
\<close>

definition save_lock_key :: "handle \<Rightarrow> ('s, 'p, 'env) world \<Rightarrow> string" where
  "save_lock_key aggregate w = aggregateName_of aggregate w @ '':'' @ id_method_toString"

definition load_lock_key :: "('s, 'p) AggregateOptions \<Rightarrow> string \<Rightarrow> string" where
  "load_lock_key aggregateDefinition ident = opt_name aggregateDefinition @ '':'' @ ident"

text \<open>
  The snapshot step of \<^verbatim>\<open>save\<close>. \<^verbatim>\<open>saveSnapshot\<close> is called without \<^verbatim>\<open>await\<close>: \<open>Inl\<close> from the
  store is a synchronous throw, which leaves \<^verbatim>\<open>save\<close>; a promise it returns is dropped.
  The step is reached with pending events only, so \<^verbatim>\<open>recordedEvents.at(-1)\<close> is the last one.
\<close>

definition save_snapshot ::
  "('p, 'env) Repository \<Rightarrow> handle \<Rightarrow> string \<Rightarrow> string \<Rightarrow> 'p AggregateEvent list \<Rightarrow>
   ('s, 'p, 'env) world \<Rightarrow> (error + unit) \<times> 'p call list \<times> ('s, 'p, 'env) world" where
  "save_snapshot repo aggregate defname ident events w =
     (case snapshotStore (store repo) of
        None \<Rightarrow> (Inr (), [], w)
      | Some ss \<Rightarrow>
          (case aggregateData (Some aggregate) w of
             Inl e \<Rightarrow> (Inl e, [], w)
           | Inr d \<Rightarrow>
               (let snap = \<lparr>snap_version = ev_version (last events), snap_state = data_state d\<rparr>
                in case call_ext (saveSnapshot ss defname ident snap) w of
                     (Inl t, w1) \<Rightarrow> (Inl (Thrown t), [SaveSnapshot defname ident snap], w1)
                   | (Inr u, w1) \<Rightarrow> (Inr (), [SaveSnapshot defname ident snap], w1))))"

text \<open>
  The end of the body of \<^verbatim>\<open>save\<close>, after the version check: \<^verbatim>\<open>saveEvents\<close> is awaited, the
  snapshot step follows, and \<^verbatim>\<open>eventsPublished\<close> is emitted without \<^verbatim>\<open>await\<close>: what the
  promise of that emit comes to is never looked at.
\<close>

definition save_persist ::
  "('p, 'env) Repository \<Rightarrow> handle \<Rightarrow> string \<Rightarrow> string \<Rightarrow> 'p AggregateEvent list \<Rightarrow>
   'p IStreamEvent list \<Rightarrow> ('s, 'p, 'env) world \<Rightarrow>
   (error + unit) \<times> 'p call list \<times> ('s, 'p, 'env) world" where
  "save_persist repo aggregate defname ident events streamEvents w =
     (case call_ext (saveEvents (store repo) streamEvents) w of
        (Inl t, w4) \<Rightarrow> (Inl (Thrown t), [SaveEvents streamEvents], w4)
      | (Inr u4, w4) \<Rightarrow>
          (case save_snapshot repo aggregate defname ident events w4 of
             (Inl e, calls5, w5) \<Rightarrow> (Inl e, [SaveEvents streamEvents] @ calls5, w5)
           | (Inr u5, calls5, w5) \<Rightarrow>
               (case emit (eventsPublished repo) streamEvents w5 of
                  (r6, w6) \<Rightarrow>
                    (Inr (),
                     [SaveEvents streamEvents] @ calls5
                       @ [Emit ''eventsPublished'' streamEvents r6],
                     w6))))"

text \<open>
  The body of \<^verbatim>\<open>save\<close> after \<^verbatim>\<open>await lock.promise\<close>, up to the version check. The emit of
  \<^verbatim>\<open>eventsRecorded\<close> is awaited.
\<close>

definition save_locked ::
  "('p, 'env) Repository \<Rightarrow> handle \<Rightarrow> ('s, 'p, 'env) world \<Rightarrow>
   (error + unit) \<times> 'p call list \<times> ('s, 'p, 'env) world" where
  "save_locked repo aggregate w =
     (case popRecordedEvents aggregate w of
        (Inl e, w1) \<Rightarrow> (Inl e, [], w1)
      | (Inr events, w1) \<Rightarrow>
     (case getAggregateDefinition (aggregateName_of aggregate w1) w1 of
        Inl e \<Rightarrow> (Inl e, [], w1)
      | Inr defn \<Rightarrow>
     (case events of
        [] \<Rightarrow> (Inr (), [], w1)
      | first # others \<Rightarrow>
     (let ident = id_of aggregate w1;
          streamEvents = map (aggregateEventToStreamEvent ident (aggregateName_of aggregate w1)) events
      in case emit (eventsRecorded repo) streamEvents w1 of
           (r2, w2) \<Rightarrow>
     (let calls2 = [Emit ''eventsRecorded'' streamEvents r2]
      in case r2 of
           Inl e \<Rightarrow> (Inl e, calls2, w2)
         | Inr u2 \<Rightarrow>
     (case call_ext (getAggregateVersion (store repo) (opt_name defn) ident) w2 of
        (r3, w3) \<Rightarrow>
     (let calls3 = calls2 @ [GetAggregateVersion (opt_name defn) ident r3]
      in case r3 of
           Inl t \<Rightarrow> (Inl (Thrown t), calls3, w3)
         | Inr currentVersion \<Rightarrow>
             if currentVersion \<noteq> ev_version first - 1 then (Inl ConcurrencyError, calls3, w3)
             else
     (case save_persist repo aggregate (opt_name defn) ident events streamEvents w3 of
        (r, calls, w') \<Rightarrow> (r, calls3 @ calls, w')))))))))"

text \<open>
  \<^verbatim>\<open>save(aggregate)\<close>: \<^verbatim>\<open>using lock = this.#mutex.aqquire(key)\<close> disposes the lock on every way
  out of the body.
\<close>

definition save ::
  "('p, 'env) Repository \<Rightarrow> handle \<Rightarrow> ('s, 'p, 'env) world \<Rightarrow>
   (error + unit) \<times> 'p call list \<times> ('s, 'p, 'env) world" where
  "save repo aggregate w =
     (let key = save_lock_key aggregate w
      in case save_locked repo aggregate w of
           (r, calls, w') \<Rightarrow> (r, [MutexAqquire key] @ calls @ [MutexDispose key], w'))"

text \<open>\<^verbatim>\<open>load(aggregateDefinition, id)\<close>\<close>

definition load_locked ::
  "('p, 'env) Repository \<Rightarrow> ('s, 'p) AggregateOptions \<Rightarrow> string \<Rightarrow> ('s, 'p, 'env) world \<Rightarrow>
   (error + handle) \<times> 'p call list \<times> ('s, 'p, 'env) world" where
  "load_locked repo aggregateDefinition ident w =
     (let defname = opt_name aggregateDefinition
      in case (case snapshotStore (store repo) of
                 None \<Rightarrow> ((Inr None, w), [])
               | Some ss \<Rightarrow> (call_ext (loadSnapshot ss defname ident) w, [LoadSnapshot defname ident])) of
           ((Inl t, w1), calls1) \<Rightarrow> (Inl (Thrown t), calls1, w1)
         | ((Inr snapshot, w1), calls1) \<Rightarrow>
     (let since = (case snapshot of None \<Rightarrow> 0 | Some s \<Rightarrow> snap_version s);
          calls2 = calls1 @ [LoadHistory defname ident since]
      in case call_ext (loadHistory (store repo) defname ident since) w1 of
           (Inl t, w2) \<Rightarrow> (Inl (Thrown t), calls2, w2)
         | (Inr history, w2) \<Rightarrow>
     (let events = map (\<lambda>event. \<lparr>ev_name = ev_name event, ev_payload = ev_payload event,
                                 ev_occuredAt = ev_occuredAt event, ev_version = ev_version event\<rparr>)
                       history
      in case loadAggregate defname ident events snapshot w2 of
           (r, w3) \<Rightarrow> (r, calls2, w3))))"

definition load ::
  "('p, 'env) Repository \<Rightarrow> ('s, 'p) AggregateOptions \<Rightarrow> string \<Rightarrow> ('s, 'p, 'env) world \<Rightarrow>
   (error + handle) \<times> 'p call list \<times> ('s, 'p, 'env) world" where
  "load repo aggregateDefinition ident w =
     (let key = load_lock_key aggregateDefinition ident
      in case load_locked repo aggregateDefinition ident w of
           (r, calls, w') \<Rightarrow> (r, [MutexAqquire key] @ calls @ [MutexDispose key], w'))"

text \<open>
  Reading a list of calls: the versions the store reported, and the calls that persist
  something (\<^verbatim>\<open>saveEvents\<close>, \<^verbatim>\<open>saveSnapshot\<close>).
\<close>

fun reported_versions :: "'p call list \<Rightarrow> int list" where
  "reported_versions [] = []"
| "reported_versions (GetAggregateVersion defname ident (Inr v) # calls) = v # reported_versions calls"
| "reported_versions (c # calls) = reported_versions calls"

fun is_persist :: "'p call \<Rightarrow> bool" where
  "is_persist (SaveEvents streamEvents) = True"
| "is_persist (SaveSnapshot defname ident snap) = True"
| "is_persist c = False"

definition persist_calls :: "'p call list \<Rightarrow> 'p call list" where
  "persist_calls calls = filter is_persist calls"

section \<open>Concrete inputs\<close>

text \<open>
  The aggregate of aggregate.spec.ts: the state is \<^verbatim>\<open>{ total }\<close>, starting at 1, and the
  handler of \<^verbatim>\<open>NumbersAdded\<close> adds \<^verbatim>\<open>a + b\<close> of the payload to it.
\<close>

definition NumbersAdded :: "(int, int \<times> int) handler" where
  "NumbersAdded event tot = (tot + (fst (ev_payload event) + snd (ev_payload event)), None)"

definition MyAggregate :: "(int, int \<times> int) AggregateOptions" where
  "MyAggregate =
     \<lparr>opt_name = ''My aggregate'', opt_initialState = 1,
      opt_events = Some (\<lambda>name. if name = ''NumbersAdded'' then Some NumbersAdded else None)\<rparr>"

text \<open>A world in which nothing is defined and nothing was created.\<close>

definition new_world :: "'s \<Rightarrow> 'env \<Rightarrow> ('s, 'p, 'env) world" where
  "new_world s0 env =
     \<lparr>aggregateDefinitions = (\<lambda>name. None),
      aggregatesData = (\<lambda>instance. None),
      closures = (\<lambda>instance.
         \<lparr>inst_id = [], inst_options = \<lparr>opt_name = [], opt_initialState = s0, opt_events = None\<rparr>,
          inst_var = None\<rparr>),
      heap = (\<lambda>st. s0), next_ref = 0, clock = 0, ext = env\<rparr>"

text \<open>
  The event store of repository.spec.ts without snapshots: the collaborators' state is
  the list of stored stream events.
\<close>

definition memory_store :: "('p, 'p IStreamEvent list) IEventStore" where
  "memory_store =
     \<lparr>getAggregateVersion = (\<lambda>defname ident stored.
         (Inr (case filter (\<lambda>event. aggregateType event = defname \<and> aggregateId event = ident) stored of
                 [] \<Rightarrow> 0
               | x # xs \<Rightarrow> ev_version (last (x # xs))), stored)),
      loadHistory = (\<lambda>defname ident sinceVersion stored.
         (Inr (sort_key ev_version
                (filter (\<lambda>event. aggregateType event = defname \<and> aggregateId event = ident
                                 \<and> ev_version event \<ge> sinceVersion) stored)), stored)),
      saveEvents = (\<lambda>newEvents stored. (Inr (), stored @ newEvents)),
      snapshotStore = None\<rparr>"

definition my_world :: "(int, int \<times> int, (int \<times> int) IStreamEvent list) world" where
  "my_world = defineAggregateRoot MyAggregate (new_world 0 [])"

definition history_event :: "int \<Rightarrow> (int \<times> int) AggregateEvent" where
  "history_event v = \<lparr>ev_name = ''NumbersAdded'', ev_payload = (1, 2), ev_occuredAt = 0, ev_version = v\<rparr>"

text \<open>
  Worlds of the tests: one instance \<^verbatim>\<open>agg-1\<close> just created (handle 0, state object 1);
  the same after the action \<^verbatim>\<open>Add number(1, 2)\<close> recorded one event; and a second
  instance \<^verbatim>\<open>agg-2\<close> of the same aggregate beside the first (handle 2).
\<close>

definition created_world :: "(int, int \<times> int, (int \<times> int) IStreamEvent list) world" where
  "created_world = snd (create MyAggregate ''agg-1'' my_world)"

definition recorded_world :: "(int, int \<times> int, (int \<times> int) IStreamEvent list) world" where
  "recorded_world = snd (recordThat 0 ''NumbersAdded'' (1, 2) created_world)"

definition two_world :: "(int, int \<times> int, (int \<times> int) IStreamEvent list) world" where
  "two_world = snd (create MyAggregate ''agg-2'' created_world)"

text \<open>
  An aggregate whose state holds a nested object, \<^verbatim>\<open>{ items: Record<string, number> }\<close>, as
  the \<^verbatim>\<open>ShoppingCart\<close> of repository.spec.ts, with its \<^verbatim>\<open>ItemAdded\<close> handler; and the world
  in which one instance \<^verbatim>\<open>cart-1\<close> of it was created (handle 0, state object 1).
\<close>

definition ItemAdded :: "(string \<Rightarrow> int option, string \<times> int) handler" where
  "ItemAdded event items =
     (items(fst (ev_payload event) \<mapsto>
        (case items (fst (ev_payload event)) of None \<Rightarrow> 0 | Some q \<Rightarrow> q) + snd (ev_payload event)),
      None)"

definition Cart :: "(string \<Rightarrow> int option, string \<times> int) AggregateOptions" where
  "Cart =
     \<lparr>opt_name = ''ShoppingCart'', opt_initialState = (\<lambda>item. None),
      opt_events = Some (\<lambda>name. if name = ''ItemAdded'' then Some ItemAdded else None)\<rparr>"

definition cart_world :: "(string \<Rightarrow> int option, string \<times> int, unit) world" where
  "cart_world = snd (create Cart ''cart-1'' (defineAggregateRoot Cart (new_world (\<lambda>item. None) ())))"

text \<open>
  Repositories over the memory store: one without subscribers, one with a subscriber of
  \<^verbatim>\<open>eventsRecorded\<close> that throws, one with a subscriber of \<^verbatim>\<open>eventsPublished\<close> that throws.
  And the world of the concurrency test of repository.spec.ts: two new instances with
  the same id \<^verbatim>\<open>agg-1\<close> (handles 0 and 2), each with one recorded event, before and after
  the first of them was saved.
\<close>

definition failing_listener :: "('p, 'env) listener" where
  "failing_listener streamEvents env = (Some ''listener failed'', env)"

definition my_repository :: "(int \<times> int, (int \<times> int) IStreamEvent list) Repository" where
  "my_repository = \<lparr>store = memory_store, eventsRecorded = [], eventsPublished = []\<rparr>"

definition guarded_repository :: "(int \<times> int, (int \<times> int) IStreamEvent list) Repository" where
  "guarded_repository =
     \<lparr>store = memory_store, eventsRecorded = [failing_listener], eventsPublished = []\<rparr>"

definition notifying_repository :: "(int \<times> int, (int \<times> int) IStreamEvent list) Repository" where
  "notifying_repository =
     \<lparr>store = memory_store, eventsRecorded = [], eventsPublished = [failing_listener]\<rparr>"

definition twins_world :: "(int, int \<times> int, (int \<times> int) IStreamEvent list) world" where
  "twins_world =
     snd (recordThat 2 ''NumbersAdded'' (1, 1)
            (snd (create MyAggregate ''agg-1'' recorded_world)))"

definition first_saved_world :: "(int, int \<times> int, (int \<times> int) IStreamEvent list) world" where
  "first_saved_world = snd (snd (save my_repository 0 twins_world))"

section \<open>Mutex: order of grants\<close>

lemma arrivals_append: "arrivals k (xs @ ys) = arrivals k xs @ arrivals k ys"
  by (induction k xs rule: arrivals.induct) simp_all

lemma key_view_step_same:
  assumes "key_view k s = key_view k s'" and "op_name x = k"
    and "queue (fst s) k = None \<longleftrightarrow> queue (fst s') k = None"
  shows "key_view k (mutex_step s x) = key_view k (mutex_step s' x)
       \<and> (queue (fst (mutex_step s x)) k = None \<longleftrightarrow> queue (fst (mutex_step s' x)) k = None)"
proof -
  obtain m log where s: "s = (m, log)" by (cases s)
  obtain m' log' where s': "s' = (m', log')" by (cases s')
  from assms show ?thesis unfolding s s'
    by (cases x)
       (auto simp: key_view_def waiting_def granted_def aqquire_def release_def queue_get_def Let_def
             split: option.splits list.splits queue_value.splits if_splits)
qed

lemma key_view_step_other:
  assumes "op_name x \<noteq> k"
  shows "key_view k (mutex_step s x) = key_view k s
       \<and> queue (fst (mutex_step s x)) k = queue (fst s) k"
proof -
  obtain m log where s: "s = (m, log)" by (cases s)
  from assms show ?thesis unfolding s
    by (cases x)
       (auto simp: key_view_def waiting_def granted_def aqquire_def release_def queue_get_def Let_def
             split: option.splits list.splits queue_value.splits if_splits)
qed

lemma key_view_filter:
  "key_view k (foldl mutex_step s ops) =
     key_view k (foldl mutex_step s (filter (\<lambda>x. op_name x = k) ops))
   \<and> (queue (fst (foldl mutex_step s ops)) k = None \<longleftrightarrow>
        queue (fst (foldl mutex_step s (filter (\<lambda>x. op_name x = k) ops))) k = None)"
proof (induction ops rule: rev_induct)
  case Nil
  show ?case by simp
next
  case (snoc x ops)
  show ?case
  proof (cases "op_name x = k")
    case True
    from snoc have a: "key_view k (foldl mutex_step s ops) =
        key_view k (foldl mutex_step s (filter (\<lambda>x. op_name x = k) ops))"
      and b: "queue (fst (foldl mutex_step s ops)) k = None \<longleftrightarrow>
        queue (fst (foldl mutex_step s (filter (\<lambda>x. op_name x = k) ops))) k = None"
      by blast+
    from key_view_step_same [OF a True b] True show ?thesis by simp
  next
    case False
    with snoc key_view_step_other [OF False, of "foldl mutex_step s ops"] show ?thesis by simp
  qed
qed

lemma fifo_step:
  assumes "k \<notin> Object_prototype_keys"
    and "a = granted k log @ waiting k m"
    and "k \<notin> locks m \<Longrightarrow> waiting k m = []"
    and "mutex_step (m, log) x = (m', log')"
  shows "a @ arrivals k [x] = granted k log' @ waiting k m'
         \<and> (k \<notin> locks m' \<longrightarrow> waiting k m' = [])"
  using assms
  by (cases x)
     (auto simp: waiting_def granted_def aqquire_def release_def queue_get_def Let_def
           split: option.splits list.splits if_splits queue_value.splits)

lemma fifo_invariant:
  assumes "k \<notin> Object_prototype_keys"
  shows "arrivals k ops = granted k (snd (run_mutex ops)) @ waiting k (fst (run_mutex ops))
   \<and> (k \<notin> locks (fst (run_mutex ops)) \<longrightarrow> waiting k (fst (run_mutex ops)) = [])"
proof (induction ops rule: rev_induct)
  case Nil
  show ?case by (simp add: run_mutex_def new_Mutex_def waiting_def granted_def)
next
  case (snoc x ops)
  obtain m log where s: "run_mutex ops = (m, log)" by (cases "run_mutex ops")
  obtain m' log' where s': "mutex_step (m, log) x = (m', log')"
    by (cases "mutex_step (m, log) x")
  have r: "run_mutex (ops @ [x]) = (m', log')"
    using s s' by (simp add: run_mutex_def)
  from snoc s have "arrivals k ops = granted k log @ waiting k m"
    and "k \<notin> locks m \<Longrightarrow> waiting k m = []" by simp_all
  from fifo_step [OF assms this s'] show ?case
    by (simp add: r arrivals_append)
qed

text \<open>
  For every key that names no property of \<^verbatim>\<open>Object.prototype\<close> and every history of
  \<^verbatim>\<open>aqquire\<close> and dispose calls on a fresh mutex: the tickets that asked for the key, in
  order of arrival, are the tickets already granted the key, in the order of their
  grants, followed by the tickets still queued on it; a release resolves the oldest
  waiter; and the lock flag, the queue and the grants of the key are those of the
  history restricted to the calls on that key.
\<close>

lemma mutex_fifo_ordinary_keys:
  assumes "k \<notin> Object_prototype_keys"
  shows "arrivals k ops = granted k (snd (run_mutex ops)) @ waiting k (fst (run_mutex ops))
   \<and> fst (release k m) = Inr (case waiting k m of [] \<Rightarrow> None | t # ts \<Rightarrow> Some t)
   \<and> key_view k (run_mutex ops) = key_view k (run_mutex (filter (\<lambda>x. op_name x = k) ops))"
proof -
  have "fst (release k m) = Inr (case waiting k m of [] \<Rightarrow> None | t # ts \<Rightarrow> Some t)"
    using assms
    by (simp add: release_def waiting_def queue_get_def Let_def split: option.splits list.splits)
  moreover have "key_view k (run_mutex ops) = key_view k (run_mutex (filter (\<lambda>x. op_name x = k) ops))"
    unfolding run_mutex_def using key_view_filter [of k "(new_Mutex, [])" ops] by blast
  ultimately show ?thesis using fifo_invariant [OF assms, of ops] by simp
qed

text \<open>
  C9. On the key \<^verbatim>\<open>constructor\<close>: the first acquisition is granted; the second, made while
  the key is held, is rejected with a \<^verbatim>\<open>TypeError\<close> instead of being queued; the release
  by the holder throws after unlocking. In the history of three acquisitions with one
  release after the second, the tickets arrive as 1, 2, 3, the grants are 1 and 3, and
  nobody is left waiting: ticket 2 is never granted.
\<close>

theorem mutex_prototype_key_rejected:
  "fst (aqquire ''constructor'' 1 new_Mutex) = Resolved
   \<and> fst (aqquire ''constructor'' 2 (snd (aqquire ''constructor'' 1 new_Mutex))) = Rejected TypeError
   \<and> fst (release ''constructor'' (snd (aqquire ''constructor'' 1 new_Mutex))) = Inl TypeError
   \<and> arrivals ''constructor''
        [OpAqquire ''constructor'' 1, OpAqquire ''constructor'' 2, OpDispose ''constructor'',
         OpAqquire ''constructor'' 3] = [1, 2, 3]
   \<and> granted ''constructor''
        (snd (run_mutex [OpAqquire ''constructor'' 1, OpAqquire ''constructor'' 2,
                         OpDispose ''constructor'', OpAqquire ''constructor'' 3])) = [1, 3]
   \<and> waiting ''constructor''
        (fst (run_mutex [OpAqquire ''constructor'' 1, OpAqquire ''constructor'' 2,
                         OpDispose ''constructor'', OpAqquire ''constructor'' 3])) = []"
  by (simp add: run_mutex_def new_Mutex_def aqquire_def release_def queue_get_def
        Object_prototype_keys_def granted_def waiting_def Let_def)

text \<open>
  The keys the repository builds hold a colon, which no property name of
  \<^verbatim>\<open>Object.prototype\<close> does.
\<close>

lemma repository_keys_ordinary:
  "save_lock_key aggregate w \<notin> Object_prototype_keys
   \<and> load_lock_key aggregateDefinition ident \<notin> Object_prototype_keys"
proof -
  have "\<And>k. CHR '':'' \<in> set k \<Longrightarrow> k \<notin> Object_prototype_keys"
    by (auto simp: Object_prototype_keys_def)
  then show ?thesis
    by (simp add: save_lock_key_def load_lock_key_def)
qed

section \<open>Registry, disposal and lock keys\<close>

lemmas world_defs = my_world_def new_world_def defineAggregateRoot_def registerAggregate_def
  MyAggregate_def NumbersAdded_def create_def createInstanceData_def Let_def
  recordThat_def recordEvent_def state_fn_def stateCopy_def aggregateData_def call_handler_def
  popRecordedEvents_def dispose_def mutate_def getAggregateDefinition_def id_of_def aggregateName_of_def
  created_world_def recorded_world_def two_world_def

text \<open>
  C10. For a live instance, \<^verbatim>\<open>popRecordedEvents\<close> returns the pending events and changes
  nothing but the \<^verbatim>\<open>recordedEvents\<close> field of the instance's record, which becomes empty:
  version and state are as before. An event recorded next is stamped with the version
  before the pop plus 1.
\<close>

theorem popRecordedEvents_frame:
  assumes "aggregatesData w h = Some d"
  shows "popRecordedEvents h w =
           (Inr (recordedEvents d),
            w\<lparr>aggregatesData := (aggregatesData w)(h \<mapsto> d\<lparr>recordedEvents := []\<rparr>)\<rparr>)
       \<and> recordEvent (Some h) event (snd (popRecordedEvents h w)) =
           (Inr (),
            w\<lparr>aggregatesData := (aggregatesData w)(h \<mapsto>
                 d\<lparr>data_version := data_version d + 1,
                   recordedEvents := [\<lparr>ev_name = ev_name event, ev_payload = ev_payload event,
                                       ev_occuredAt = clock w, ev_version = data_version d + 1\<rparr>]\<rparr>)\<rparr>)"
  using assms by (simp add: popRecordedEvents_def recordEvent_def Let_def)

lemma recorded_world_data:
  "aggregatesData recorded_world 0 =
     Some \<lparr>data_state = 1, data_version = 1,
           recordedEvents = [\<lparr>ev_name = ''NumbersAdded'', ev_payload = (1, 2),
                               ev_occuredAt = 0, ev_version = 1\<rparr>]\<rparr>"
  by (simp add: world_defs)

theorem popRecordedEvents_frame_witness:
  "aggregatesData recorded_world 0 =
     Some \<lparr>data_state = 1, data_version = 1,
           recordedEvents = [\<lparr>ev_name = ''NumbersAdded'', ev_payload = (1, 2),
                               ev_occuredAt = 0, ev_version = 1\<rparr>]\<rparr>
   \<and> fst (popRecordedEvents 0 recorded_world) =
       Inr [\<lparr>ev_name = ''NumbersAdded'', ev_payload = (1, 2), ev_occuredAt = 0, ev_version = 1\<rparr>]
   \<and> aggregatesData (snd (popRecordedEvents 0 recorded_world)) 0 =
       Some \<lparr>data_state = 1, data_version = 1, recordedEvents = []\<rparr>
   \<and> aggregatesData
        (snd (recordEvent (Some 0) \<lparr>ev_name = ''NumbersAdded'', ev_payload = (1, 1)\<rparr>
                (snd (popRecordedEvents 0 recorded_world)))) 0 =
       Some \<lparr>data_state = 1, data_version = 2,
             recordedEvents = [\<lparr>ev_name = ''NumbersAdded'', ev_payload = (1, 1),
                                 ev_occuredAt = 0, ev_version = 2\<rparr>]\<rparr>"
proof -
  note h = recorded_world_data
  have c: "clock recorded_world = 0" by (simp add: world_defs)
  note t = popRecordedEvents_frame [OF h, of "\<lparr>ev_name = ''NumbersAdded'', ev_payload = (1, 1)\<rparr>"]
  have p: "popRecordedEvents 0 recorded_world =
             (Inr [\<lparr>ev_name = ''NumbersAdded'', ev_payload = (1, 2), ev_occuredAt = 0, ev_version = 1\<rparr>],
              recorded_world\<lparr>aggregatesData := (aggregatesData recorded_world)(0 \<mapsto>
                \<lparr>data_state = 1, data_version = 1, recordedEvents = []\<rparr>)\<rparr>)"
    using t [THEN conjunct1] by simp
  have r: "recordEvent (Some 0) \<lparr>ev_name = ''NumbersAdded'', ev_payload = (1, 1)\<rparr>
              (snd (popRecordedEvents 0 recorded_world)) =
             (Inr (),
              recorded_world\<lparr>aggregatesData := (aggregatesData recorded_world)(0 \<mapsto>
                \<lparr>data_state = 1, data_version = 2,
                 recordedEvents = [\<lparr>ev_name = ''NumbersAdded'', ev_payload = (1, 1),
                                     ev_occuredAt = 0, ev_version = 2\<rparr>]\<rparr>)\<rparr>)"
    using t [THEN conjunct2] by (simp add: c)
  show ?thesis
    unfolding r unfolding p using h by simp
qed

text \<open>
  C2, as stated, fails: \<^verbatim>\<open>[Symbol.dispose]\<close> sets the closure variable to \<^verbatim>\<open>null\<close> and leaves
  the registry entry. After the handle \<^verbatim>\<open>agg-1\<close> recorded one event and was disposed,
  \<^verbatim>\<open>popRecordedEvents\<close>, \<^verbatim>\<open>aggregateData\<close> and \<^verbatim>\<open>recordEvent\<close> given the handle still succeed.
\<close>

theorem dispose_counterexample:
  "fst (popRecordedEvents 0 (dispose 0 recorded_world)) =
     Inr [\<lparr>ev_name = ''NumbersAdded'', ev_payload = (1, 2), ev_occuredAt = 0, ev_version = 1\<rparr>]
   \<and> fst (popRecordedEvents 0 (dispose 0 recorded_world)) \<noteq> Inl InstanceDoesNotExistError
   \<and> aggregateData (Some 0) (dispose 0 recorded_world) \<noteq> Inl InstanceDoesNotExistError
   \<and> fst (recordEvent (Some 0) \<lparr>ev_name = ''NumbersAdded'', ev_payload = (1, 1)\<rparr>
             (dispose 0 recorded_world)) = Inr ()"
  by (simp add: world_defs)

text \<open>
  C2, amended. After the disposal of a handle, the operations of the handle's own action
  context fail with \<^verbatim>\<open>InstanceDoesNotExistError\<close>: the state accessor, and \<^verbatim>\<open>recordThat\<close> of
  an event that has a handler (which records nothing). The record stays in the registry.
\<close>

theorem dispose_fails_through_context:
  assumes "(case opt_events (inst_options (closures w h)) of None \<Rightarrow> None | Some hs \<Rightarrow> hs name)
             = Some handler"
  shows "state_fn h (dispose h w) = Inl InstanceDoesNotExistError
       \<and> stateCopy h (dispose h w) = Inl InstanceDoesNotExistError
       \<and> recordThat h name payload (dispose h w) = (Inl InstanceDoesNotExistError, dispose h w)
       \<and> aggregatesData (dispose h w) = aggregatesData w"
  using assms
  by (simp add: state_fn_def stateCopy_def dispose_def aggregateData_def recordThat_def
        recordEvent_def Let_def)

theorem dispose_fails_through_context_witness:
  "(case opt_events (inst_options (closures recorded_world 0)) of
      None \<Rightarrow> None | Some hs \<Rightarrow> hs ''NumbersAdded'') = Some NumbersAdded
   \<and> stateCopy 0 (dispose 0 recorded_world) = Inl InstanceDoesNotExistError
   \<and> fst (recordThat 0 ''NumbersAdded'' (1, 2) (dispose 0 recorded_world)) =
       Inl InstanceDoesNotExistError"
proof -
  have h: "(case opt_events (inst_options (closures recorded_world 0)) of
      None \<Rightarrow> None | Some hs \<Rightarrow> hs ''NumbersAdded'') = Some NumbersAdded"
    by (simp add: world_defs)
  from dispose_fails_through_context [OF h, of "(1, 2)"] h show ?thesis by simp
qed

text \<open>
  C3. The state accessor of the new instance \<^verbatim>\<open>cart-1\<close> returns the reference held by its
  record (state object 1, no items). After the caller sets \<^verbatim>\<open>items['item-1'] = 5\<close> on the
  object it was given, the state stored in the record has that item.
\<close>

theorem stateCopy_is_live_reference:
  "stateCopy 0 cart_world = Inr 1
   \<and> map_option (\<lambda>d. heap cart_world (data_state d) ''item-1'') (aggregatesData cart_world 0)
       = Some None
   \<and> map_option (\<lambda>d. heap (mutate 1 (\<lambda>items. items(''item-1'' \<mapsto> 5)) cart_world) (data_state d) ''item-1'')
        (aggregatesData (mutate 1 (\<lambda>items. items(''item-1'' \<mapsto> 5)) cart_world) 0)
       = Some (Some 5)"
  by (simp add: cart_world_def Cart_def world_defs)

text \<open>
  C1. With two instances \<^verbatim>\<open>agg-1\<close> and \<^verbatim>\<open>agg-2\<close> of one aggregate, \<^verbatim>\<open>save\<close> acquires the same
  key for both, and that key is not the key \<^verbatim>\<open>load\<close> acquires for \<^verbatim>\<open>agg-1\<close>.
\<close>

theorem save_key_ignores_id:
  "id_of 0 two_world = ''agg-1'' \<and> id_of 2 two_world = ''agg-2''
   \<and> save_lock_key 0 two_world = save_lock_key 2 two_world
   \<and> load_lock_key MyAggregate ''agg-1'' = ''My aggregate:agg-1''
   \<and> save_lock_key 0 two_world \<noteq> load_lock_key MyAggregate ''agg-1''
   \<and> hd (fst (snd (save \<lparr>store = memory_store, eventsRecorded = [], eventsPublished = []\<rparr> 0 two_world)))
       = MutexAqquire (save_lock_key 0 two_world)
   \<and> hd (fst (snd (load \<lparr>store = memory_store, eventsRecorded = [], eventsPublished = []\<rparr>
                      MyAggregate ''agg-1'' two_world)))
       = MutexAqquire ''My aggregate:agg-1''"
  by (simp add: world_defs save_lock_key_def load_lock_key_def id_method_toString_def
        save_def load_def split: prod.splits)

section \<open>Replay: validation and resulting version\<close>

lemma continous_loop_iff:
  "0 < i \<Longrightarrow>
   continous_loop i versions \<longleftrightarrow>
     (\<forall>j. i \<le> j \<and> j < length versions \<longrightarrow> versions ! (j - 1) = versions ! j - 1)"
proof (induction i versions rule: continous_loop.induct)
  case (1 i versions)
  show ?case
  proof (cases "i < length versions")
    case False
    then show ?thesis by (subst continous_loop.simps) simp
  next
    case True
    show ?thesis
    proof (cases "versions ! (i - 1) \<noteq> versions ! i - 1")
      case bad: True
      with True show ?thesis
        by (subst continous_loop.simps) (auto intro: exI [of _ i])
    next
      case good: False
      have ih: "continous_loop (i + 1) versions \<longleftrightarrow>
        (\<forall>j. i + 1 \<le> j \<and> j < length versions \<longrightarrow> versions ! (j - 1) = versions ! j - 1)"
        using "1.IH" [OF True] good by simp
      have "(\<forall>j. i \<le> j \<and> j < length versions \<longrightarrow> versions ! (j - 1) = versions ! j - 1) \<longleftrightarrow>
            (\<forall>j. i + 1 \<le> j \<and> j < length versions \<longrightarrow> versions ! (j - 1) = versions ! j - 1)"
        using good by (metis Suc_eq_plus1 Suc_leI le_neq_implies_less less_or_eq_imp_le Suc_le_lessD le_eq_less_or_eq)
      with ih True good show ?thesis
        by (subst continous_loop.simps) simp
    qed
  qed
qed

lemma areEventsContinous_iff:
  "areEventsContinous es \<longleftrightarrow>
     (\<forall>j. Suc j < length es \<longrightarrow> ev_version (es ! Suc j) = ev_version (es ! j) + 1)"
proof (cases "length es < 2")
  case True
  then show ?thesis by (auto simp: areEventsContinous_def)
next
  case False
  have "(\<forall>j. 1 \<le> j \<and> j < length (map ev_version es) \<longrightarrow>
             map ev_version es ! (j - 1) = map ev_version es ! j - 1) \<longleftrightarrow>
        (\<forall>j. Suc j < length es \<longrightarrow> ev_version (es ! Suc j) = ev_version (es ! j) + 1)"
    (is "?L \<longleftrightarrow> ?R")
  proof
    assume l: ?L
    show ?R
    proof (intro allI impI)
      fix j assume j: "Suc j < length es"
      from l have "1 \<le> Suc j \<and> Suc j < length (map ev_version es) \<longrightarrow>
          map ev_version es ! (Suc j - 1) = map ev_version es ! Suc j - 1" by (rule spec)
      with j show "ev_version (es ! Suc j) = ev_version (es ! j) + 1" by simp
    qed
  next
    assume r: ?R
    show ?L
    proof (intro allI impI)
      fix j assume j: "1 \<le> j \<and> j < length (map ev_version es)"
      then obtain j' where j': "j = Suc j'" by (cases j) auto
      with j r have "ev_version (es ! Suc j') = ev_version (es ! j') + 1" by simp
      with j j' show "map ev_version es ! (j - 1) = map ev_version es ! j - 1" by simp
    qed
  qed
  with False show ?thesis
    by (simp add: areEventsContinous_def continous_loop_iff)
qed

lemma apply_events_error:
  "apply_events hs oname instance data es w = (Inl e, w') \<Longrightarrow>
   (\<exists>n. e = HandlerNotDefined n oname) \<or> (\<exists>t. e = Thrown t)"
proof (induction es arbitrary: data w)
  case Nil
  then show ?case by simp
next
  case (Cons event es)
  then show ?case
    by (auto simp: call_handler_def Let_def split: option.splits prod.splits sum.splits)
qed

text \<open>
  C7, amended. For a replay of a registered aggregate that declares event handlers whose
  filtered and sorted event list is not empty: it fails with the start-offset error
  exactly when the first version is not the snapshot version (0 without snapshot) plus 1,
  and with the continuity error exactly when the first version is that number and some
  adjacent pair of the sorted versions does not increase by exactly 1.
\<close>

theorem replay_validation:
  assumes "aggregateDefinitions w aggregateName = Some options"
    and "opt_events options = Some hs"
    and "toSorted_byVersion
           (case snapshot of None \<Rightarrow> events
            | Some s \<Rightarrow> filter (\<lambda>event. snap_version s < ev_version event) events) = first # others"
  shows "(fst (loadAggregate aggregateName ident events snapshot w) = Inl EventsDontStartAfterSnapshot
            \<longleftrightarrow> ev_version first \<noteq> (case snapshot of None \<Rightarrow> 0 | Some s \<Rightarrow> snap_version s) + 1)
       \<and> (fst (loadAggregate aggregateName ident events snapshot w) = Inl EventsNotContinous
            \<longleftrightarrow> ev_version first = (case snapshot of None \<Rightarrow> 0 | Some s \<Rightarrow> snap_version s) + 1
               \<and> (\<exists>j. Suc j < length (first # others)
                       \<and> ev_version ((first # others) ! Suc j) \<noteq> ev_version ((first # others) ! j) + 1))"
proof -
  have ne: "events \<noteq> []"
    using assms(3) by (auto simp: toSorted_byVersion_def split: option.splits)
  obtain inst w1 where c: "create options ident w = (inst, w1)"
    by (cases "create options ident w")
  obtain data0 where d: "aggregateData (Some inst) w1 = Inr data0"
    using c by (auto simp: create_def createInstanceData_def aggregateData_def Let_def)
  define base where "base = (case snapshot of None \<Rightarrow> 0 | Some s \<Rightarrow> snap_version s)"
  define data where "data = (case snapshot of None \<Rightarrow> data0
     | Some s \<Rightarrow> data0\<lparr>data_state := snap_state s, data_version := snap_version s\<rparr>)"
  define w2 where "w2 = w1\<lparr>aggregatesData := (aggregatesData w1)(inst \<mapsto> data)\<rparr>"
  have la: "loadAggregate aggregateName ident events snapshot w =
      (if ev_version first \<noteq> base + 1 then (Inl EventsDontStartAfterSnapshot, w2)
       else if \<not> areEventsContinous (first # others) then (Inl EventsNotContinous, w2)
       else (case apply_events hs (opt_name options) inst data (first # others) w2 of
               (Inl e, w3) \<Rightarrow> (Inl e, w3)
             | (Inr u, w3) \<Rightarrow> (Inr inst, w3)))"
    using assms ne c d
    by (simp add: loadAggregate_def getAggregateDefinition_def Let_def base_def data_def w2_def)
  have ae: "fst (case apply_events hs (opt_name options) inst data (first # others) w2 of
               (Inl e, w3) \<Rightarrow> (Inl e, w3)
             | (Inr u, w3) \<Rightarrow> (Inr inst, w3)) \<noteq> Inl EventsDontStartAfterSnapshot
         \<and> fst (case apply_events hs (opt_name options) inst data (first # others) w2 of
               (Inl e, w3) \<Rightarrow> (Inl e, w3)
             | (Inr u, w3) \<Rightarrow> (Inr inst, w3)) \<noteq> Inl EventsNotContinous"
    using apply_events_error [of hs "opt_name options" inst data "first # others" w2]
    by (auto split: prod.splits sum.splits)
  show ?thesis
    unfolding la base_def [symmetric] using ae
    by (auto simp: areEventsContinous_iff)
qed


lemmas load_defs = loadAggregate_def toSorted_byVersion_def areEventsContinous_def
  continous_loop.simps history_event_def

text \<open>
  C7, as stated, fails. With history versions 2 and 4 and no snapshot the adjacent pair
  does not increase by 1, yet the replay fails with the start-offset error, not with the
  continuity error: the start check comes first and throws.
\<close>

theorem replay_validation_counterexample:
  "toSorted_byVersion [history_event 2, history_event 4] = [history_event 2, history_event 4]
   \<and> ev_version (history_event 4) \<noteq> ev_version (history_event 2) + 1
   \<and> fst (loadAggregate ''My aggregate'' ''agg-1'' [history_event 2, history_event 4] None my_world)
       = Inl EventsDontStartAfterSnapshot
   \<and> fst (loadAggregate ''My aggregate'' ''agg-1'' [history_event 2, history_event 4] None my_world)
       \<noteq> Inl EventsNotContinous"
  by (simp add: world_defs load_defs)

text \<open>
  History versions 1, 4, 2 (sorted 1, 2, 4) fail the continuity check; a history of
  versions 3, 2 that starts at 2 with no snapshot fails the start-offset check.
\<close>

theorem replay_validation_witness:
  "aggregateDefinitions my_world ''My aggregate'' = Some MyAggregate
   \<and> toSorted_byVersion [history_event 1, history_event 4, history_event 2] =
       [history_event 1, history_event 2, history_event 4]
   \<and> fst (loadAggregate ''My aggregate'' ''agg-1''
             [history_event 1, history_event 4, history_event 2] None my_world)
       = Inl EventsNotContinous
   \<and> toSorted_byVersion [history_event 3, history_event 2] = [history_event 2, history_event 3]
   \<and> fst (loadAggregate ''My aggregate'' ''agg-1'' [history_event 3, history_event 2] None my_world)
       = Inl EventsDontStartAfterSnapshot"
proof -
  have d: "aggregateDefinitions my_world ''My aggregate'' = Some MyAggregate"
    by (simp add: world_defs)
  have e: "opt_events MyAggregate =
             Some (\<lambda>name. if name = ''NumbersAdded'' then Some NumbersAdded else None)"
    by (simp add: MyAggregate_def)
  have s1: "toSorted_byVersion (case None of None \<Rightarrow> [history_event 1, history_event 4, history_event 2]
              | Some s \<Rightarrow> filter (\<lambda>event. snap_version s < ev_version event)
                           [history_event 1, history_event 4, history_event 2]) =
            history_event 1 # [history_event 2, history_event 4]"
    by (simp add: toSorted_byVersion_def history_event_def)
  have s2: "toSorted_byVersion (case None of None \<Rightarrow> [history_event 3, history_event 2]
              | Some s \<Rightarrow> filter (\<lambda>event. snap_version s < ev_version event)
                           [history_event 3, history_event 2]) =
            history_event 2 # [history_event 3]"
    by (simp add: toSorted_byVersion_def history_event_def)
  have j: "\<exists>j. Suc j < length [history_event 1, history_event 2, history_event 4]
              \<and> ev_version ([history_event 1, history_event 2, history_event 4] ! Suc j) \<noteq>
                 ev_version ([history_event 1, history_event 2, history_event 4] ! j) + 1"
    by (rule exI [of _ 1]) (simp add: history_event_def)
  from replay_validation [OF d e s1, of "''agg-1''"] j
  have a: "fst (loadAggregate ''My aggregate'' ''agg-1''
             [history_event 1, history_event 4, history_event 2] None my_world)
       = Inl EventsNotContinous"
    by (simp add: history_event_def)
  from replay_validation [OF d e s2, of "''agg-1''"]
  have b: "fst (loadAggregate ''My aggregate'' ''agg-1'' [history_event 3, history_event 2] None my_world)
       = Inl EventsDontStartAfterSnapshot"
    by (simp add: history_event_def)
  from s1 s2 have "toSorted_byVersion [history_event 1, history_event 4, history_event 2] =
       [history_event 1, history_event 2, history_event 4]"
    and "toSorted_byVersion [history_event 3, history_event 2] = [history_event 2, history_event 3]"
    by simp_all
  with d a b show ?thesis by simp
qed

lemma apply_events_ok:
  assumes "\<forall>e \<in> set es. \<exists>h. hs (ev_name e) = Some h \<and> (\<forall>ev st. snd (h ev st) = None)"
  shows "\<exists>w'. apply_events hs oname inst data es w = (Inr (), w')
           \<and> (es \<noteq> [] \<longrightarrow> aggregatesData w' inst = Some (data\<lparr>data_version := ev_version (last es)\<rparr>))
           \<and> (es = [] \<longrightarrow> w' = w)"
  using assms
proof (induction es arbitrary: data w)
  case Nil
  show ?case by simp
next
  case (Cons event es)
  from Cons.prems obtain h where h: "hs (ev_name event) = Some h"
    and nt: "\<And>ev st. snd (h ev st) = None" by auto
  define ev where "ev = \<lparr>ev_name = ev_name event, ev_payload = ev_payload event\<rparr>"
  define w1 where "w1 = w\<lparr>heap := (heap w)(data_state data := fst (h ev (heap w (data_state data))))\<rparr>"
  have ch: "call_handler h ev (data_state data) w = (Inr (), w1)"
    using nt [of ev "heap w (data_state data)"]
    by (cases "h ev (heap w (data_state data))") (simp add: call_handler_def w1_def)
  define data' where "data' = data\<lparr>data_version := ev_version event\<rparr>"
  define w2 where "w2 = w1\<lparr>aggregatesData := (aggregatesData w1)(inst \<mapsto> data')\<rparr>"
  have step: "apply_events hs oname inst data (event # es) w = apply_events hs oname inst data' es w2"
    using h ch by (simp add: ev_def Let_def data'_def w2_def)
  from Cons.prems have "\<forall>e \<in> set es. \<exists>h. hs (ev_name e) = Some h \<and> (\<forall>ev st. snd (h ev st) = None)"
    by simp
  from Cons.IH [OF this, of data' w2] obtain w' where
    r: "apply_events hs oname inst data' es w2 = (Inr (), w')"
    and v: "es \<noteq> [] \<longrightarrow> aggregatesData w' inst = Some (data'\<lparr>data_version := ev_version (last es)\<rparr>)"
    and u: "es = [] \<longrightarrow> w' = w2" by blast
  have "aggregatesData w' inst = Some (data\<lparr>data_version := ev_version (last (event # es))\<rparr>)"
  proof (cases "es = []")
    case True
    with u show ?thesis by (simp add: w2_def data'_def)
  next
    case False
    with v show ?thesis by (simp add: data'_def)
  qed
  with step r show ?case by simp
qed

text \<open>
  C8. A replay of a registered aggregate whose filtered and sorted events have the
  versions \<open>base + 1, ..., base + k\<close>, where \<open>base\<close> is the snapshot version or 0 without
  snapshot, and each have a handler that does not throw, returns an instance whose
  record version is \<open>base + k\<close>: \<open>n\<close> for \<open>n\<close> events from version 1 without snapshot,
  \<open>s + k\<close> from a snapshot at \<open>s\<close>, and \<open>s\<close> when no event is left to apply.
\<close>

theorem replay_version:
  assumes "aggregateDefinitions w aggregateName = Some options"
    and "events = [] \<or> opt_events options = Some hs"
    and "base = (case snapshot of None \<Rightarrow> 0 | Some s \<Rightarrow> snap_version s)"
    and "newEvents = toSorted_byVersion
           (case snapshot of None \<Rightarrow> events
            | Some s \<Rightarrow> filter (\<lambda>event. snap_version s < ev_version event) events)"
    and "map ev_version newEvents = [base + 1 .. base + int k]"
    and "\<forall>e \<in> set newEvents. \<exists>h. hs (ev_name e) = Some h \<and> (\<forall>ev st. snd (h ev st) = None)"
  shows "\<exists>h w'. loadAggregate aggregateName ident events snapshot w = (Inr h, w')
           \<and> map_option data_version (aggregatesData w' h) = Some (base + int k)"
proof -
  obtain inst w1 where c: "create options ident w = (inst, w1)"
    by (cases "create options ident w")
  define data0 :: "'b AggregateData" where
    "data0 = \<lparr>data_state = next_ref w + 1, data_version = 0, recordedEvents = []\<rparr>"
  have d: "aggregateData (Some inst) w1 = Inr data0"
    using c by (auto simp: create_def createInstanceData_def aggregateData_def Let_def data0_def)
  define data where "data = (case snapshot of None \<Rightarrow> data0
     | Some s \<Rightarrow> data0\<lparr>data_state := snap_state s, data_version := snap_version s\<rparr>)"
  define w2 where "w2 = w1\<lparr>aggregatesData := (aggregatesData w1)(inst \<mapsto> data)\<rparr>"
  have dv: "data_version data = base"
    by (simp add: data_def data0_def assms(3) split: option.splits)
  have w2v: "map_option data_version (aggregatesData w2 inst) = Some base"
    by (simp add: w2_def dv)
  show ?thesis
  proof (cases "newEvents = []")
    case True
    with assms(5) have k: "k = 0" by (cases k) (auto simp: upto_rec1)
    from True assms(4) have ne: "toSorted_byVersion
           (case snapshot of None \<Rightarrow> events
            | Some s \<Rightarrow> filter (\<lambda>event. snap_version s < ev_version event) events) = []" by simp
    have "loadAggregate aggregateName ident events snapshot w = (Inr inst, w2)"
      using assms(1,2) c d ne
      by (auto simp: loadAggregate_def getAggregateDefinition_def Let_def data_def w2_def)
    with w2v k show ?thesis by simp
  next
    case False
    then obtain first others where fo: "newEvents = first # others" by (cases newEvents) auto
    with assms(4) have evne: "events \<noteq> []"
      by (auto simp: toSorted_byVersion_def split: option.splits)
    with assms(2) have hs: "opt_events options = Some hs" by simp
    have len: "length newEvents = k"
    proof -
      have "length (map ev_version newEvents) = length [base + 1 .. base + int k]"
        by (simp only: assms(5))
      then show ?thesis by simp
    qed
    have nth: "\<And>j. j < k \<Longrightarrow> ev_version (newEvents ! j) = base + 1 + int j"
    proof -
      fix j assume j: "j < k"
      have "map ev_version newEvents ! j = [base + 1 .. base + int k] ! j"
        by (simp only: assms(5))
      with j len show "ev_version (newEvents ! j) = base + 1 + int j"
        by (simp add: nth_upto)
    qed
    from fo len have kpos: "0 < k" by auto
    have first: "ev_version first = base + 1"
      using nth [OF kpos] fo by simp
    have cont: "areEventsContinous newEvents"
      unfolding areEventsContinous_iff using nth len by auto
    have lastv: "ev_version (last newEvents) = base + int k"
      using nth [of "k - 1"] kpos len False by (simp add: last_conv_nth)
    from apply_events_ok [OF assms(6), of "opt_name options" inst data w2]
    obtain w3 where ap: "apply_events hs (opt_name options) inst data newEvents w2 = (Inr (), w3)"
      and v3: "aggregatesData w3 inst = Some (data\<lparr>data_version := ev_version (last newEvents)\<rparr>)"
      using False by blast
    have "loadAggregate aggregateName ident events snapshot w = (Inr inst, w3)"
      using assms(1) hs evne c d fo [unfolded assms(4)] first cont [unfolded fo] ap [unfolded fo]
        assms(3) assms(4)
      by (simp add: loadAggregate_def getAggregateDefinition_def Let_def data_def w2_def)
    with v3 lastv show ?thesis by simp
  qed
qed


theorem replay_version_witness:
  "aggregateDefinitions my_world ''My aggregate'' = Some MyAggregate
   \<and> map ev_version (toSorted_byVersion [history_event 2, history_event 1, history_event 3]) = [1, 2, 3]
   \<and> (\<exists>h w'. loadAggregate ''My aggregate'' ''agg-1''
                 [history_event 2, history_event 1, history_event 3] None my_world = (Inr h, w')
              \<and> map_option data_version (aggregatesData w' h) = Some 3)
   \<and> (\<exists>h w'. loadAggregate ''My aggregate'' ''agg-1''
                 [history_event 2, history_event 6, history_event 5]
                 (Some \<lparr>snap_version = 4, snap_state = 77\<rparr>) my_world = (Inr h, w')
              \<and> map_option data_version (aggregatesData w' h) = Some 6)"
proof -
  have d: "aggregateDefinitions my_world ''My aggregate'' = Some MyAggregate"
    by (simp add: world_defs)
  have e: "[history_event 2, history_event 1, history_event 3] = []
           \<or> opt_events MyAggregate =
             Some (\<lambda>name. if name = ''NumbersAdded'' then Some NumbersAdded else None)"
    by (simp add: MyAggregate_def)
  have e': "[history_event 2, history_event 6, history_event 5] = []
           \<or> opt_events MyAggregate =
             Some (\<lambda>name. if name = ''NumbersAdded'' then Some NumbersAdded else None)"
    by (simp add: MyAggregate_def)
  have b1: "(0::int) = (case None :: ISnapshot option of None \<Rightarrow> 0 | Some s \<Rightarrow> snap_version s)"
    by simp
  have b2: "(4::int) = (case Some \<lparr>snap_version = 4, snap_state = 77\<rparr> of
                          None \<Rightarrow> 0 | Some s \<Rightarrow> snap_version s)"
    by simp
  have n1: "[history_event 1, history_event 2, history_event 3] =
            toSorted_byVersion (case None :: ISnapshot option of
               None \<Rightarrow> [history_event 2, history_event 1, history_event 3]
             | Some s \<Rightarrow> filter (\<lambda>event. snap_version s < ev_version event)
                          [history_event 2, history_event 1, history_event 3])"
    by (simp add: toSorted_byVersion_def history_event_def)
  have n2: "[history_event 5, history_event 6] =
            toSorted_byVersion (case Some \<lparr>snap_version = 4, snap_state = 77\<rparr> of
               None \<Rightarrow> [history_event 2, history_event 6, history_event 5]
             | Some s \<Rightarrow> filter (\<lambda>event. snap_version s < ev_version event)
                          [history_event 2, history_event 6, history_event 5])"
    by (simp add: toSorted_byVersion_def history_event_def)
  have u1: "[(1::int), 2, 3] = [0 + 1 .. 0 + int 3]" by (simp add: upto_rec1)
  have u2: "[(5::int), 6] = [4 + 1 .. 4 + int 2]" by (simp add: upto_rec1)
  have v1: "map ev_version [history_event 1, history_event 2, history_event 3] = [0 + 1 .. 0 + int 3]"
    unfolding u1 [symmetric] by (simp add: history_event_def)
  have v2: "map ev_version [history_event 5, history_event 6] = [4 + 1 .. 4 + int 2]"
    unfolding u2 [symmetric] by (simp add: history_event_def)
  have h1: "\<forall>e \<in> set [history_event 1, history_event 2, history_event 3].
              \<exists>h. (\<lambda>name. if name = ''NumbersAdded'' then Some NumbersAdded else None) (ev_name e) = Some h
                  \<and> (\<forall>ev st. snd (h ev st) = None)"
    by (simp add: history_event_def NumbersAdded_def)
  have h2: "\<forall>e \<in> set [history_event 5, history_event 6].
              \<exists>h. (\<lambda>name. if name = ''NumbersAdded'' then Some NumbersAdded else None) (ev_name e) = Some h
                  \<and> (\<forall>ev st. snd (h ev st) = None)"
    by (simp add: history_event_def NumbersAdded_def)
  note r1 = replay_version [OF d e b1 n1 v1 h1, of "''agg-1''"]
  note r2 = replay_version [OF d e' b2 n2 v2 h2, of "''agg-1''"]
  have s: "map ev_version (toSorted_byVersion [history_event 2, history_event 1, history_event 3]) = [1, 2, 3]"
    by (simp add: toSorted_byVersion_def history_event_def)
  from d s r1 r2 show ?thesis by simp
qed

section \<open>Repository: save\<close>

lemma emit_error: "emit ls args w = (Inl e, w') \<Longrightarrow> \<exists>t. e = Thrown t"
proof (induction ls arbitrary: w)
  case Nil
  then show ?case by simp
next
  case (Cons l ls)
  then show ?case by (auto split: prod.splits option.splits)
qed

lemma save_snapshot_result:
  "save_snapshot repo a defname ident events w = (r, calls, w') \<Longrightarrow>
   r \<noteq> Inl ConcurrencyError \<and> reported_versions calls = []"
  by (auto simp: save_snapshot_def Let_def aggregateData_def
        split: option.splits sum.splits prod.splits)

lemma reported_versions_append:
  "reported_versions (xs @ ys) = reported_versions xs @ reported_versions ys"
  by (induction xs rule: reported_versions.induct) simp_all

lemma save_persist_result:
  "save_persist repo a defname ident events streamEvents w = (r, calls, w') \<Longrightarrow>
   r \<noteq> Inl ConcurrencyError \<and> reported_versions calls = []"
  by (auto simp: save_persist_def Let_def reported_versions_append
        split: sum.splits prod.splits
        dest: save_snapshot_result)

lemma save_locked_concurrency:
  assumes "aggregatesData w a = Some d" and "recordedEvents d = first # others"
    and "save_locked repo a w = (r, calls, w')"
  shows "(r = Inl ConcurrencyError \<and> persist_calls calls = []
            \<and> (\<exists>v. reported_versions calls = [v] \<and> v \<noteq> ev_version first - 1))
       \<or> (r \<noteq> Inl ConcurrencyError
            \<and> (reported_versions calls = [] \<or> reported_versions calls = [ev_version first - 1]))"
  using assms
  by (auto simp: save_locked_def popRecordedEvents_def Let_def persist_calls_def
        getAggregateDefinition_def reported_versions_append
        split: sum.splits prod.splits option.splits if_splits
        dest: emit_error save_persist_result)

lemma save_unfold:
  "save repo a w =
     (fst (save_locked repo a w),
      [MutexAqquire (save_lock_key a w)] @ fst (snd (save_locked repo a w))
        @ [MutexDispose (save_lock_key a w)],
      snd (snd (save_locked repo a w)))"
  by (simp add: save_def Let_def split: prod.splits)

text \<open>
  C4. For a save of an instance with pending events: \<^verbatim>\<open>save\<close> throws \<^verbatim>\<open>ConcurrencyError\<close>
  exactly when the version the store reported to it differs from the version of the
  first pending event minus 1, and then no \<^verbatim>\<open>saveEvents\<close> (and no \<^verbatim>\<open>saveSnapshot\<close>) call was
  made.
\<close>

theorem save_concurrency_check:
  assumes "aggregatesData w a = Some d" and "recordedEvents d = first # others"
  shows "(fst (save repo a w) = Inl ConcurrencyError \<longleftrightarrow>
            (\<exists>v \<in> set (reported_versions (fst (snd (save repo a w)))). v \<noteq> ev_version first - 1))
       \<and> (fst (save repo a w) = Inl ConcurrencyError \<longrightarrow>
            persist_calls (fst (snd (save repo a w))) = [])"
proof -
  obtain r calls w' where s: "save_locked repo a w = (r, calls, w')"
    by (cases "save_locked repo a w") auto
  from save_locked_concurrency [OF assms s] show ?thesis
    by (auto simp: save_unfold s reported_versions_append persist_calls_def)
qed

lemmas save_defs = save_def save_locked_def save_persist_def save_snapshot_def call_ext_def memory_store_def
  aggregateEventToStreamEvent_def save_lock_key_def id_method_toString_def
  my_repository_def guarded_repository_def notifying_repository_def failing_listener_def
  twins_world_def first_saved_world_def persist_calls_def

lemma first_saved_world_data:
  "aggregatesData first_saved_world 2 =
     Some \<lparr>data_state = 3, data_version = 1,
           recordedEvents = [\<lparr>ev_name = ''NumbersAdded'', ev_payload = (1, 1),
                               ev_occuredAt = 0, ev_version = 1\<rparr>]\<rparr>"
  by (simp add: world_defs save_defs)

theorem save_concurrency_check_witness:
  "aggregatesData first_saved_world 2 =
     Some \<lparr>data_state = 3, data_version = 1,
           recordedEvents = [\<lparr>ev_name = ''NumbersAdded'', ev_payload = (1, 1),
                               ev_occuredAt = 0, ev_version = 1\<rparr>]\<rparr>
   \<and> fst (save my_repository 0 twins_world) = Inr ()
   \<and> reported_versions (fst (snd (save my_repository 2 first_saved_world))) = [1]
   \<and> fst (save my_repository 2 first_saved_world) = Inl ConcurrencyError
   \<and> persist_calls (fst (snd (save my_repository 2 first_saved_world))) = []"
proof -
  note h = first_saved_world_data
  have h2: "recordedEvents \<lparr>data_state = 3, data_version = 1,
           recordedEvents = [\<lparr>ev_name = ''NumbersAdded'', ev_payload = (1, 1),
                               ev_occuredAt = 0, ev_version = 1\<rparr>]\<rparr> =
       \<lparr>ev_name = ''NumbersAdded'', ev_payload = (1, 1), ev_occuredAt = 0, ev_version = 1\<rparr> # []"
    by simp
  note t = save_concurrency_check [OF h h2, of my_repository]
  have s1: "fst (save my_repository 0 twins_world) = Inr ()"
    by (simp add: world_defs save_defs)
  have rv: "reported_versions (fst (snd (save my_repository 2 first_saved_world))) = [1]"
    by (simp add: world_defs save_defs)
  from t rv have c: "fst (save my_repository 2 first_saved_world) = Inl ConcurrencyError"
    by simp
  with t have "persist_calls (fst (snd (save my_repository 2 first_saved_world))) = []"
    by blast
  with h s1 rv c show ?thesis by simp
qed

text \<open>
  C5. For a save of an instance with pending events of a registered aggregate: when the
  emit of \<^verbatim>\<open>eventsRecorded\<close> fails because a subscriber failed, \<^verbatim>\<open>save\<close> fails with that
  failure and calls neither \<^verbatim>\<open>saveEvents\<close> nor \<^verbatim>\<open>saveSnapshot\<close>.
\<close>

theorem save_before_persist_failure:
  assumes "aggregatesData w a = Some d" and "recordedEvents d = first # others"
    and "aggregateDefinitions w (aggregateName_of a w) = Some defn"
    and "fst (emit (eventsRecorded repo)
               (map (aggregateEventToStreamEvent (id_of a w) (aggregateName_of a w)) (recordedEvents d))
               (snd (popRecordedEvents a w))) = Inl e"
  shows "fst (save repo a w) = Inl e \<and> persist_calls (fst (snd (save repo a w))) = []"
  using assms
  by (auto simp: save_unfold save_locked_def popRecordedEvents_def getAggregateDefinition_def
        id_of_def aggregateName_of_def Let_def persist_calls_def split: prod.splits)

theorem save_before_persist_failure_witness:
  "aggregateDefinitions recorded_world (aggregateName_of 0 recorded_world) = Some MyAggregate
   \<and> fst (emit (eventsRecorded guarded_repository)
            (map (aggregateEventToStreamEvent (id_of 0 recorded_world) (aggregateName_of 0 recorded_world))
               [\<lparr>ev_name = ''NumbersAdded'', ev_payload = (1, 2), ev_occuredAt = 0, ev_version = 1\<rparr>])
            (snd (popRecordedEvents 0 recorded_world))) = Inl (Thrown ''listener failed'')
   \<and> fst (save guarded_repository 0 recorded_world) = Inl (Thrown ''listener failed'')
   \<and> persist_calls (fst (snd (save guarded_repository 0 recorded_world))) = []"
proof -
  note h = recorded_world_data
  have h2: "recordedEvents \<lparr>data_state = 1, data_version = 1,
           recordedEvents = [\<lparr>ev_name = ''NumbersAdded'', ev_payload = (1, 2),
                               ev_occuredAt = 0, ev_version = 1\<rparr>]\<rparr> =
       \<lparr>ev_name = ''NumbersAdded'', ev_payload = (1, 2), ev_occuredAt = 0, ev_version = 1\<rparr> # []"
    by simp
  have d: "aggregateDefinitions recorded_world (aggregateName_of 0 recorded_world) = Some MyAggregate"
    by (simp add: world_defs)
  have e: "fst (emit (eventsRecorded guarded_repository)
            (map (aggregateEventToStreamEvent (id_of 0 recorded_world) (aggregateName_of 0 recorded_world))
               (recordedEvents \<lparr>data_state = 1, data_version = 1,
                  recordedEvents = [\<lparr>ev_name = ''NumbersAdded'', ev_payload = (1, 2),
                               ev_occuredAt = 0, ev_version = 1\<rparr>]\<rparr>))
            (snd (popRecordedEvents 0 recorded_world))) = Inl (Thrown ''listener failed'')"
    by (simp add: guarded_repository_def failing_listener_def call_ext_def)
  from save_before_persist_failure [OF h h2 d e] d e show ?thesis by simp
qed


lemma save_persist_result_without_published:
  "fst (save_persist repo a defname ident events streamEvents w) =
     fst (save_persist (repo\<lparr>eventsPublished := []\<rparr>) a defname ident events streamEvents w)"
  by (simp add: save_persist_def save_snapshot_def Let_def
        split: sum.splits prod.splits option.splits)

lemma save_persist_calls_without_published:
  "filter is_persist (fst (snd (save_persist repo a defname ident events streamEvents w))) =
   filter is_persist (fst (snd (save_persist (repo\<lparr>eventsPublished := []\<rparr>) a defname ident
                                   events streamEvents w)))"
  by (simp add: save_persist_def save_snapshot_def Let_def
        split: sum.splits prod.splits option.splits)

lemma save_locked_without_published:
  "fst (save_locked repo a w) = fst (save_locked (repo\<lparr>eventsPublished := []\<rparr>) a w)
   \<and> persist_calls (fst (snd (save_locked repo a w))) =
       persist_calls (fst (snd (save_locked (repo\<lparr>eventsPublished := []\<rparr>) a w)))"
  by (auto simp: save_locked_def Let_def case_prod_beta persist_calls_def
        split: sum.splits list.splits
        intro: save_persist_result_without_published save_persist_calls_without_published)

lemma save_snapshot_calls:
  "save_snapshot repo a defname ident events w = (r, calls, w') \<Longrightarrow>
   Emit name evs x \<notin> set calls"
  by (auto simp: save_snapshot_def Let_def split: option.splits sum.splits prod.splits)

lemma save_persist_published:
  assumes "Emit name evs x \<in> set (fst (snd (save_persist repo a defname ident events streamEvents w)))"
  shows "fst (save_persist repo a defname ident events streamEvents w) = Inr ()
       \<and> evs = streamEvents
       \<and> SaveEvents evs \<in> set (fst (snd (save_persist repo a defname ident events streamEvents w)))"
  using assms
  by (auto simp: save_persist_def Let_def split: sum.splits prod.splits
        dest: save_snapshot_calls)

lemma save_locked_published:
  assumes "Emit ''eventsPublished'' evs x \<in> set (fst (snd (save_locked repo a w)))"
  shows "fst (save_locked repo a w) = Inr () \<and> SaveEvents evs \<in> set (fst (snd (save_locked repo a w)))"
  using assms
  by (auto simp: save_locked_def Let_def case_prod_beta
        split: sum.splits list.splits if_splits
        dest: save_persist_published)

text \<open>
  C6. What \<^verbatim>\<open>save\<close> returns and the persisting calls it makes are those of the same save
  by a repository without \<^verbatim>\<open>eventsPublished\<close> subscribers; and whenever the emit of
  \<^verbatim>\<open>eventsPublished\<close> failed, \<^verbatim>\<open>save\<close> returned normally and the events had been handed to
  \<^verbatim>\<open>saveEvents\<close>.
\<close>

theorem save_after_persist_failure:
  "fst (save repo a w) = fst (save (repo\<lparr>eventsPublished := []\<rparr>) a w)
   \<and> persist_calls (fst (snd (save repo a w))) =
       persist_calls (fst (snd (save (repo\<lparr>eventsPublished := []\<rparr>) a w)))
   \<and> (Emit ''eventsPublished'' evs (Inl e) \<in> set (fst (snd (save repo a w))) \<longrightarrow>
         fst (save repo a w) = Inr () \<and> SaveEvents evs \<in> set (fst (snd (save repo a w))))"
  using save_locked_without_published [of repo a w] save_locked_published [of evs "Inl e" repo a w]
  by (auto simp: save_unfold persist_calls_def)

theorem save_after_persist_failure_witness:
  "Emit ''eventsPublished''
      [\<lparr>ev_name = ''NumbersAdded'', ev_payload = (1, 2), ev_occuredAt = 0, ev_version = 1,
        aggregateId = ''agg-1'', aggregateType = ''My aggregate''\<rparr>]
      (Inl (Thrown ''listener failed''))
     \<in> set (fst (snd (save notifying_repository 0 recorded_world)))
   \<and> fst (save notifying_repository 0 recorded_world) = Inr ()
   \<and> SaveEvents
      [\<lparr>ev_name = ''NumbersAdded'', ev_payload = (1, 2), ev_occuredAt = 0, ev_version = 1,
        aggregateId = ''agg-1'', aggregateType = ''My aggregate''\<rparr>]
     \<in> set (fst (snd (save notifying_repository 0 recorded_world)))"
proof -
  have h: "Emit ''eventsPublished''
      [\<lparr>ev_name = ''NumbersAdded'', ev_payload = (1, 2), ev_occuredAt = 0, ev_version = 1,
        aggregateId = ''agg-1'', aggregateType = ''My aggregate''\<rparr>]
      (Inl (Thrown ''listener failed''))
     \<in> set (fst (snd (save notifying_repository 0 recorded_world)))"
    by (simp add: world_defs save_defs)
  from save_after_persist_failure [of notifying_repository 0 recorded_world
         "[\<lparr>ev_name = ''NumbersAdded'', ev_payload = (1, 2), ev_occuredAt = 0, ev_version = 1,
            aggregateId = ''agg-1'', aggregateType = ''My aggregate''\<rparr>]" "Thrown ''listener failed''"] h
  show ?thesis by blast
qed

end
